theory Spec2Isabelle
  imports Complex_Main "HOL-Library.Sublist"
begin

section \<open>Python values used by \<open>rose_draw.py\<close>\<close>

text \<open>
  The exceptions the arithmetic of the program can raise. A computation that may raise
  returns \<open>error + 'a\<close>, with \<open>Inl\<close> for the exception.
\<close>

datatype error = ZeroDivisionError | ValueError | OverflowError

text \<open>
  A Python \<open>float\<close> is an IEEE double: a finite number, one of the two infinities or a
  NaN (\<open>argparse\<close> with \<open>type=float\<close> accepts \<open>inf\<close>, \<open>-inf\<close> and \<open>nan\<close>).
  \<open>Fin r\<close> is the finite double of value \<open>r\<close>; the two zeros are not told apart.
\<close>

datatype pyfloat = Fin real | PosInf | NegInf | NaN

text \<open>
  The result of an arithmetic operation is its exact value rounded to the nearest double,
  ties to the even significand. \<open>rne\<close> rounds a real to the nearest integer, ties to
  even. A double has 53 significant bits: at a value of binary exponent \<open>e\<close> the doubles
  are the multiples of \<open>2 ^ (e - 52)\<close>, and below the smallest normal exponent, -1022,
  the spacing stays that of the subnormal numbers. \<open>fl x\<close> is \<open>x\<close> rounded to that grid,
  and \<open>round_double\<close> turns a rounded value beyond the largest double into an infinity.
\<close>

definition rne :: "real \<Rightarrow> int" where
  "rne y =
     (let n = \<lfloor>y\<rfloor>; r = y - of_int n
      in if r < 1 / 2 then n else if 1 / 2 < r then n + 1 else if even n then n else n + 1)"

definition fl_exp :: "real \<Rightarrow> int" where
  "fl_exp x = max (- 1022) \<lfloor>log 2 \<bar>x\<bar>\<rfloor>"

definition ulp :: "real \<Rightarrow> real" where
  "ulp x = 2 powr real_of_int (fl_exp x - 52)"

definition fl :: "real \<Rightarrow> real" where
  "fl x = of_int (rne (x / ulp x)) * ulp x"

definition round_double :: "real \<Rightarrow> pyfloat" where
  "round_double x =
     (if 2 ^ 1024 \<le> \<bar>fl x\<bar> then (if 0 < x then PosInf else NegInf) else Fin (fl x))"

text \<open>\<open>float_gt b a\<close> is the comparison \<open>b > a\<close>; every comparison with a NaN is false.\<close>

fun float_gt :: "pyfloat \<Rightarrow> pyfloat \<Rightarrow> bool" where
  "float_gt NaN _ = False"
| "float_gt _ NaN = False"
| "float_gt (Fin b) (Fin a) = (a < b)"
| "float_gt (Fin b) PosInf = False"
| "float_gt (Fin b) NegInf = True"
| "float_gt PosInf PosInf = False"
| "float_gt PosInf _ = True"
| "float_gt NegInf _ = False"

text \<open>
  The builtins \<open>max(a, b)\<close> and \<open>min(a, b)\<close> keep the first argument unless the second
  one is strictly greater (strictly smaller).
\<close>

definition float_max :: "pyfloat \<Rightarrow> pyfloat \<Rightarrow> pyfloat" where
  "float_max a b = (if float_gt b a then b else a)"

definition int_max :: "int \<Rightarrow> int \<Rightarrow> int" where
  "int_max a b = (if a < b then b else a)"

definition int_min :: "int \<Rightarrow> int \<Rightarrow> int" where
  "int_min a b = (if b < a then b else a)"

text \<open>
  The conversion of an \<open>int\<close> to a \<open>float\<close> rounds to the nearest double and raises
  \<open>OverflowError\<close> when that is beyond the largest double.
\<close>

definition int_to_float :: "int \<Rightarrow> error + pyfloat" where
  "int_to_float k =
     (case round_double (real_of_int k) of
        PosInf \<Rightarrow> Inl OverflowError
      | NegInf \<Rightarrow> Inl OverflowError
      | v \<Rightarrow> Inr v)"

text \<open>
  True division \<open>x / y\<close> of two \<open>float\<close>s: a zero divisor raises, whatever the dividend;
  a quotient beyond the largest double is an infinity; an infinite divisor gives zero
  (or NaN for an infinite dividend); a NaN operand gives NaN.
\<close>

fun float_truediv :: "pyfloat \<Rightarrow> pyfloat \<Rightarrow> error + pyfloat" where
  "float_truediv x (Fin d) =
     (if d = 0 then Inl ZeroDivisionError
      else Inr (case x of
                  Fin a \<Rightarrow> round_double (a / d)
                | PosInf \<Rightarrow> (if 0 < d then PosInf else NegInf)
                | NegInf \<Rightarrow> (if 0 < d then NegInf else PosInf)
                | NaN \<Rightarrow> NaN))"
| "float_truediv x PosInf = Inr (case x of Fin a \<Rightarrow> Fin 0 | _ \<Rightarrow> NaN)"
| "float_truediv x NegInf = Inr (case x of Fin a \<Rightarrow> Fin 0 | _ \<Rightarrow> NaN)"
| "float_truediv x NaN = Inr NaN"

text \<open>
  True division \<open>n / d\<close> of an \<open>int\<close> by a \<open>float\<close>: the \<open>int\<close> is converted first.
\<close>

definition int_truediv :: "int \<Rightarrow> pyfloat \<Rightarrow> error + pyfloat" where
  "int_truediv n d =
     (case int_to_float n of
        Inl e \<Rightarrow> Inl e
      | Inr x \<Rightarrow> float_truediv x d)"

text \<open>
  True division \<open>a / b\<close> of two \<open>int\<close>s: the exact quotient is rounded once to the
  nearest double, and a quotient beyond the largest double raises \<open>OverflowError\<close>.
\<close>

definition int_int_truediv :: "int \<Rightarrow> int \<Rightarrow> error + pyfloat" where
  "int_int_truediv a b =
     (if b = 0 then Inl ZeroDivisionError
      else case round_double (real_of_int a / real_of_int b) of
             PosInf \<Rightarrow> Inl OverflowError
           | NegInf \<Rightarrow> Inl OverflowError
           | v \<Rightarrow> Inr v)"

text \<open>Floor division \<open>a // b\<close> of two \<open>int\<close>s.\<close>

definition int_floordiv :: "int \<Rightarrow> int \<Rightarrow> error + int" where
  "int_floordiv a b = (if b = 0 then Inl ZeroDivisionError else Inr (a div b))"

text \<open>
  The conversion \<open>int(x)\<close> of a \<open>float\<close> drops the fractional part (rounds towards zero);
  it raises \<open>OverflowError\<close> on an infinity and \<open>ValueError\<close> on a NaN.
\<close>

definition trunc :: "real \<Rightarrow> int" where
  "trunc r = (if 0 \<le> r then \<lfloor>r\<rfloor> else \<lceil>r\<rceil>)"

fun float_to_int :: "pyfloat \<Rightarrow> error + int" where
  "float_to_int (Fin r) = Inr (trunc r)"
| "float_to_int PosInf = Inl OverflowError"
| "float_to_int NegInf = Inl OverflowError"
| "float_to_int NaN = Inl ValueError"

section \<open>The frame schedule\<close>

text \<open>
  \<^verbatim>\<open>
  base_frames = 240  # looks smooth; ~8s at 30fps
  frames = max(60, int(base_frames / max(0.1, speed)))
  idx_per_frame = max(1, len(x) // frames)
  \<close>
  The literal \<open>0.1\<close> is written as one tenth. The double it denotes,
  \<open>3602879701896397 / 2 ^ 55\<close>, is the one next above one tenth, so for a speed that is
  a double \<open>max\<close> makes the same choice with either, and as divisors both give the
  quotient 2400 after rounding (lemma \<open>quotient_by_literal\<close>).
\<close>

definition base_frames :: int where
  "base_frames = 240"

definition frames :: "pyfloat \<Rightarrow> error + int" where
  "frames speed =
     (case int_truediv base_frames (float_max (Fin (1 / 10)) speed) of
        Inl e \<Rightarrow> Inl e
      | Inr q \<Rightarrow> (case float_to_int q of
                   Inl e \<Rightarrow> Inl e
                 | Inr n \<Rightarrow> Inr (int_max 60 n)))"

definition idx_per_frame :: "int \<Rightarrow> int \<Rightarrow> error + int" where
  "idx_per_frame len_x fr =
     (case int_floordiv len_x fr of
        Inl e \<Rightarrow> Inl e
      | Inr q \<Rightarrow> Inr (int_max 1 q))"

section \<open>The sampled curve\<close>

text \<open>
  \<open>numpy.linspace(start, stop, num)\<close>, with its default \<open>endpoint=True\<close>: a negative
  \<open>num\<close> raises \<open>ValueError\<close>; otherwise the result has \<open>num\<close> samples
  \<open>i * step + start\<close> with \<open>step = (stop - start) / (num - 1)\<close>, and when there is more
  than one sample the last one is set to \<open>stop\<close>. With a single sample there is no step
  and the sample is \<open>start\<close>.
\<close>

definition linspace :: "real \<Rightarrow> real \<Rightarrow> int \<Rightarrow> error + real list" where
  "linspace start stop num =
     (if num < 0 then Inl ValueError
      else
        let n = nat num;
            delta = stop - start;
            y = (if 0 < num - 1
                 then map (\<lambda>i. real i * (delta / real_of_int (num - 1)) + start) [0..<n]
                 else map (\<lambda>i. real i * delta + start) [0..<n])
        in Inr (if 1 < num then y[n - 1 := stop] else y))"

text \<open>
  \<^verbatim>\<open>
  theta = np.linspace(0, 2*np.pi, points)
  r = a * np.cos(k * theta)
  x = r * np.cos(theta)
  y = r * np.sin(theta)
  \<close>
  The arrays are lists and the array operations work element by element. Here the floats
  are read as real numbers and the operations as exact. That fixes the number of samples,
  which is all that the schedule and the percent label depend on; the values that the
  arrays hold in double arithmetic are those of \<open>prepare_data_double\<close> below.
\<close>

definition prepare_data :: "int \<Rightarrow> real \<Rightarrow> int \<Rightarrow> error + real list \<times> real list" where
  "prepare_data k a points =
     (case linspace 0 (2 * pi) points of
        Inl e \<Rightarrow> Inl e
      | Inr theta \<Rightarrow>
          let r = map (\<lambda>t. a * cos (real_of_int k * t)) theta;
              x = map2 (\<lambda>ri t. ri * cos t) r theta;
              y = map2 (\<lambda>ri t. ri * sin t) r theta
          in Inr (x, y))"

section \<open>The sampled curve in double arithmetic\<close>

text \<open>The double that \<open>np.pi\<close> is.\<close>

definition pi_double :: real where
  "pi_double = 884279719003555 / 2 ^ 48"

text \<open>
  The product of two \<open>float\<close>s: the exact product rounded, an infinity when it is beyond
  the largest double; zero times an infinity is NaN, and a NaN operand gives NaN.
\<close>

fun float_mul :: "pyfloat \<Rightarrow> pyfloat \<Rightarrow> pyfloat" where
  "float_mul NaN _ = NaN"
| "float_mul _ NaN = NaN"
| "float_mul (Fin x) (Fin y) = round_double (x * y)"
| "float_mul (Fin x) PosInf = (if x = 0 then NaN else if 0 < x then PosInf else NegInf)"
| "float_mul (Fin x) NegInf = (if x = 0 then NaN else if 0 < x then NegInf else PosInf)"
| "float_mul PosInf (Fin y) = (if y = 0 then NaN else if 0 < y then PosInf else NegInf)"
| "float_mul NegInf (Fin y) = (if y = 0 then NaN else if 0 < y then NegInf else PosInf)"
| "float_mul PosInf PosInf = PosInf"
| "float_mul PosInf NegInf = NegInf"
| "float_mul NegInf PosInf = NegInf"
| "float_mul NegInf NegInf = PosInf"

text \<open>
  \<open>np.linspace(0, 2*np.pi, points)\<close> in double arithmetic. The stop value \<open>2 * np.pi\<close>
  is exact. With more than one sample the step is the rounded quotient of the stop value
  by \<open>points - 1\<close>, sample \<open>i\<close> is the rounded product of \<open>i\<close> and the step (adding the
  start value 0 changes nothing), and the last sample is set to the stop value. (NumPy's
  special case for a step that underflows to zero needs more than \<open>2 ^ 1000\<close> samples
  and is left out.)
\<close>

definition theta_double :: "int \<Rightarrow> error + pyfloat list" where
  "theta_double points =
     (if points < 0 then Inl ValueError
      else
        let n = nat points;
            stop = 2 * pi_double;
            y = (if 0 < points - 1
                 then map (\<lambda>i. round_double
                             (fl (real i) * fl (stop / fl (real_of_int (points - 1)))))
                        [0..<n]
                 else map (\<lambda>i. round_double (fl (real i) * stop)) [0..<n])
        in Inr (if 1 < points then y[n - 1 := Fin stop] else y))"

text \<open>
  The four lines that prepare the data, in double arithmetic. The \<open>int\<close> \<open>k\<close> is
  converted to a double to multiply the array, which raises \<open>OverflowError\<close> for a \<open>k\<close>
  beyond the largest double; every product is rounded. The cosine and the sine of the
  numeric library on doubles are parameters: their results are not fixed to the last bit
  by anything in the program.
\<close>

definition prepare_data_double ::
  "(pyfloat \<Rightarrow> pyfloat) \<Rightarrow> (pyfloat \<Rightarrow> pyfloat) \<Rightarrow> int \<Rightarrow> pyfloat \<Rightarrow> int
    \<Rightarrow> error + pyfloat list \<times> pyfloat list" where
  "prepare_data_double np_cos np_sin k a points =
     (case theta_double points of
        Inl e \<Rightarrow> Inl e
      | Inr theta \<Rightarrow>
          (case int_to_float k of
             Inl e \<Rightarrow> Inl e
           | Inr kd \<Rightarrow>
               let r = map (\<lambda>t. float_mul a (np_cos (float_mul kd t))) theta;
                   x = map2 (\<lambda>ri t. float_mul ri (np_cos t)) r theta;
                   y = map2 (\<lambda>ri t. float_mul ri (np_sin t)) r theta
               in Inr (x, y)))"



section \<open>The figure and the animation\<close>

text \<open>
  What the figure shows: the growing line, the percent label, the window title and the
  faint guide path of the whole curve.
\<close>

record figure =
  line_x :: "real list"
  line_y :: "real list"
  pct_text :: string
  window_title :: string
  guide_x :: "real list"
  guide_y :: "real list"

text \<open>
  What the callbacks \<open>init\<close> and \<open>update\<close> close over, together with the figure as
  \<open>animate_rose\<close> leaves it before the first callback runs.
\<close>

record animation =
  anim_x :: "real list"
  anim_y :: "real list"
  anim_frames :: int
  anim_idx_per_frame :: int
  anim_fig :: figure

text \<open>
  \<open>animate_rose\<close> up to the construction of the \<open>FuncAnimation\<close>: the data, the figure
  with an empty line and the label \<open>0%\<close>, and the schedule. The title of a new window
  is the library's default.
\<close>

definition animate_rose :: "int \<Rightarrow> real \<Rightarrow> int \<Rightarrow> pyfloat \<Rightarrow> error + animation" where
  "animate_rose k a points speed =
     (case prepare_data k a points of
        Inl e \<Rightarrow> Inl e
      | Inr (x, y) \<Rightarrow>
          let fig = \<lparr>line_x = [], line_y = [], pct_text = ''0%'',
                     window_title = ''Figure 1'', guide_x = x, guide_y = y\<rparr>
          in case frames speed of
               Inl e \<Rightarrow> Inl e
             | Inr fr \<Rightarrow>
                 (case idx_per_frame (int (length x)) fr of
                    Inl e \<Rightarrow> Inl e
                  | Inr idx \<Rightarrow>
                      Inr \<lparr>anim_x = x, anim_y = y, anim_frames = fr,
                           anim_idx_per_frame = idx, anim_fig = fig\<rparr>))"

text \<open>The slice \<open>xs[:i]\<close>: a negative \<open>i\<close> counts from the end.\<close>

definition slice_to :: "'a list \<Rightarrow> int \<Rightarrow> 'a list" where
  "slice_to xs i = (if 0 \<le> i then take (nat i) xs else take (nat (int (length xs) + i)) xs)"

text \<open>The decimal text of an \<open>int\<close>, as an f-string formats it.\<close>

fun nat_digits :: "nat \<Rightarrow> string" where
  "nat_digits n =
     (if n < 10 then [''0123456789'' ! n]
      else nat_digits (n div 10) @ [''0123456789'' ! (n mod 10)])"

definition str_int :: "int \<Rightarrow> string" where
  "str_int n = (if n < 0 then CHR ''-'' # nat_digits (nat (- n)) else nat_digits (nat n))"



text \<open>The em dash of the window title, as its three bytes in UTF-8.\<close>

definition em_dash :: string where
  "em_dash = [CHR 0xE2, CHR 0x80, CHR 0x94]"


text \<open>
  \<^verbatim>\<open>
  def update(frame):
      i = min(len(x), (frame + 1) * idx_per_frame)
      line.set_data(x[:i], y[:i])
      pct = int(100 * i / len(x))
      pct_text.set_text(f"{pct}%")
      fig.canvas.manager.set_window_title(f"Rose Drawing - {pct}%")
  \<close>
  \<open>revealed_count\<close> is the local \<open>i\<close>, the number of points the frame reveals. The
  quotient \<open>100 * i / len(x)\<close> is a true division of two \<open>int\<close>s, rounded to a double,
  and raises on an empty curve.
\<close>

definition revealed_count :: "animation \<Rightarrow> int \<Rightarrow> int" where
  "revealed_count A frame =
     int_min (int (length (anim_x A))) ((frame + 1) * anim_idx_per_frame A)"

definition update :: "animation \<Rightarrow> figure \<Rightarrow> int \<Rightarrow> error + figure" where
  "update A fig frame =
     (let i = revealed_count A frame in
      case int_int_truediv (100 * i) (int (length (anim_x A))) of
        Inl e \<Rightarrow> Inl e
      | Inr q \<Rightarrow>
          (case float_to_int q of
             Inl e \<Rightarrow> Inl e
           | Inr pct \<Rightarrow>
               Inr (fig\<lparr>line_x := slice_to (anim_x A) i,
                        line_y := slice_to (anim_y A) i,
                        pct_text := str_int pct @ ''%'',
                        window_title :=
                          ''Rose Drawing '' @ em_dash @ '' '' @ str_int pct @ ''%''\<rparr>)))"

section \<open>Export and display\<close>

text \<open>
  \<^verbatim>\<open>
  if save:
      try:
          anim.save(save, writer="pillow", fps=30)
          print(f"Saved animation to {save}")
      except Exception as e:
          print("Could not save GIF:", e)
  plt.show()
  \<close>
  What \<open>anim.save\<close> raises is either an instance of \<open>Exception\<close>, which the handler
  catches, or an exception outside that class (\<open>KeyboardInterrupt\<close>, \<open>SystemExit\<close>),
  which it does not; each carries its text \<open>str(e)\<close>. The encoder is a collaborator of
  the program: its outcome for a path is a parameter, \<open>None\<close> when it returns. The effects
  are recorded as a trace of events, and the second component of the result is the
  exception that leaves the function, if any.
\<close>

datatype exc = Exc string | BaseExc string

datatype event = Save_call string | Print string | Show

definition save_and_show :: "(string \<Rightarrow> exc option) \<Rightarrow> string option \<Rightarrow> event list \<times> exc option" where
  "save_and_show anim_save save =
     (case save of
        None \<Rightarrow> ([Show], None)
      | Some path \<Rightarrow>
          if path = [] then ([Show], None)
          else
            (case anim_save path of
               None \<Rightarrow>
                 ([Save_call path, Print (''Saved animation to '' @ path), Show], None)
             | Some (Exc msg) \<Rightarrow>
                 ([Save_call path, Print (''Could not save GIF: '' @ msg), Show], None)
             | Some (BaseExc msg) \<Rightarrow> ([Save_call path], Some (BaseExc msg))))"

section \<open>Properties of the rounding\<close>

text \<open>
  Rounding to the nearest integer stays between the floor and the ceiling, so rounding to
  a double never crosses a point of the grid: a bound that is itself a double of the same
  or a coarser spacing survives the rounding.
\<close>

lemma rne_of_int: "rne (of_int z) = z"
  by (simp add: rne_def)

lemma rne_lower: "\<lfloor>y\<rfloor> \<le> rne y"
  by (simp add: rne_def Let_def)

lemma rne_upper: "rne y \<le> \<lceil>y\<rceil>"
proof (cases "y = of_int \<lfloor>y\<rfloor>")
  case True
  then have "rne y = \<lfloor>y\<rfloor>"
    by (metis rne_of_int)
  then show ?thesis
    by (simp add: floor_le_ceiling)
next
  case False
  then have "\<lceil>y\<rceil> = \<lfloor>y\<rfloor> + 1"
    by (simp add: ceiling_altdef)
  then show ?thesis
    by (simp add: rne_def Let_def)
qed

lemma rne_le: "y \<le> of_int j \<Longrightarrow> rne y \<le> j"
  using rne_upper [of y] by (simp add: ceiling_le_iff order_trans [OF rne_upper])

lemma rne_ge: "of_int j \<le> y \<Longrightarrow> j \<le> rne y"
  using rne_lower [of y] by (simp add: le_floor_iff order_trans [OF _ rne_lower])

lemma ulp_pos: "0 < ulp x"
  by (simp add: ulp_def)

lemma fl_le: "x \<le> of_int j * ulp x \<Longrightarrow> fl x \<le> of_int j * ulp x"
proof -
  assume "x \<le> of_int j * ulp x"
  then have "x / ulp x \<le> of_int j"
    by (simp add: pos_divide_le_eq ulp_pos)
  then have "rne (x / ulp x) \<le> j"
    by (rule rne_le)
  then show ?thesis
    by (simp add: fl_def ulp_pos)
qed

lemma fl_ge: "of_int j * ulp x \<le> x \<Longrightarrow> of_int j * ulp x \<le> fl x"
proof -
  assume "of_int j * ulp x \<le> x"
  then have "of_int j \<le> x / ulp x"
    by (simp add: pos_le_divide_eq ulp_pos)
  then have "j \<le> rne (x / ulp x)"
    by (rule rne_ge)
  then show ?thesis
    by (simp add: fl_def ulp_pos)
qed

lemma fl_zero: "fl 0 = 0"
  using rne_of_int [of 0] by (simp add: fl_def)

lemma fl_exp_le:
  assumes "x \<noteq> 0" and "\<bar>x\<bar> < 2 powr (real_of_int E + 1)" and "- 1022 \<le> E"
  shows "fl_exp x \<le> E"
proof -
  from assms(1,2) have "log 2 \<bar>x\<bar> < real_of_int E + 1"
    by (simp add: log_less_iff)
  then have "\<lfloor>log 2 \<bar>x\<bar>\<rfloor> \<le> E"
    by linarith
  with assms(3) show ?thesis
    by (simp add: fl_exp_def)
qed

lemma fl_exp_ge:
  assumes "x \<noteq> 0" and "2 powr real_of_int E \<le> \<bar>x\<bar>"
  shows "E \<le> fl_exp x"
proof -
  from assms have "real_of_int E \<le> log 2 \<bar>x\<bar>"
    by (simp add: le_log_iff)
  then have "E \<le> \<lfloor>log 2 \<bar>x\<bar>\<rfloor>"
    by (simp add: le_floor_iff)
  then show ?thesis
    by (simp add: fl_exp_def)
qed

lemma on_grid:
  assumes "fl_exp x - 52 \<le> t"
  shows "of_int j * 2 powr real_of_int t = of_int (j * 2 ^ nat (t - (fl_exp x - 52))) * ulp x"
proof -
  let ?d = "t - (fl_exp x - 52)"
  from assms have d: "0 \<le> ?d"
    by simp
  have "2 powr real_of_int t = 2 powr (real_of_int ?d + real_of_int (fl_exp x - 52))"
    by simp
  also have "\<dots> = 2 powr real_of_int ?d * ulp x"
    by (simp only: powr_add ulp_def)
  also from d have "2 powr real_of_int ?d = 2 ^ nat ?d"
    by (metis of_int_0_le_iff of_nat_nat powr_realpow zero_less_numeral of_int_of_nat_eq)
  finally show ?thesis
    by simp
qed


lemma fl_le_frac:
  assumes "\<bar>x\<bar> < 2 ^ n" and "p + n \<le> 53" and "x \<le> of_int j / 2 ^ p"
  shows "fl x \<le> of_int j / 2 ^ p"
proof (cases "x = 0")
  case True
  with assms(3) show ?thesis
    by (simp add: fl_zero)
next
  case False
  have "2 powr (real_of_int (int n - 1) + 1) = 2 ^ n"
    by (simp add: powr_realpow)
  with assms(1) have "\<bar>x\<bar> < 2 powr (real_of_int (int n - 1) + 1)"
    by simp
  with False have "fl_exp x \<le> int n - 1"
    by (rule fl_exp_le) simp
  with assms(2) have "fl_exp x - 52 \<le> - int p"
    by simp
  from on_grid [OF this, of j]
  obtain j' where g: "of_int j * 2 powr real_of_int (- int p) = of_int j' * ulp x"
    by blast
  have "2 powr real_of_int (- int p) = 1 / 2 ^ p"
    by (simp add: powr_minus powr_realpow divide_inverse)
  with g have eq: "of_int j / 2 ^ p = of_int j' * ulp x"
    by simp
  with assms(3) have "x \<le> of_int j' * ulp x"
    by simp
  then have "fl x \<le> of_int j' * ulp x"
    by (rule fl_le)
  with eq show ?thesis
    by simp
qed

lemma fl_ge_frac:
  assumes "\<bar>x\<bar> < 2 ^ n" and "p + n \<le> 53" and "of_int j / 2 ^ p \<le> x"
  shows "of_int j / 2 ^ p \<le> fl x"
proof (cases "x = 0")
  case True
  with assms(3) show ?thesis
    by (simp add: fl_zero)
next
  case False
  have "2 powr (real_of_int (int n - 1) + 1) = 2 ^ n"
    by (simp add: powr_realpow)
  with assms(1) have "\<bar>x\<bar> < 2 powr (real_of_int (int n - 1) + 1)"
    by simp
  with False have "fl_exp x \<le> int n - 1"
    by (rule fl_exp_le) simp
  with assms(2) have "fl_exp x - 52 \<le> - int p"
    by simp
  from on_grid [OF this, of j]
  obtain j' where g: "of_int j * 2 powr real_of_int (- int p) = of_int j' * ulp x"
    by blast
  have "2 powr real_of_int (- int p) = 1 / 2 ^ p"
    by (simp add: powr_minus powr_realpow divide_inverse)
  with g have eq: "of_int j / 2 ^ p = of_int j' * ulp x"
    by simp
  with assms(3) have "of_int j' * ulp x \<le> x"
    by simp
  then have "of_int j' * ulp x \<le> fl x"
    by (rule fl_ge)
  with eq show ?thesis
    by simp
qed

lemma fl_dyadic:
  assumes "\<bar>x\<bar> < 2 ^ n" and "p + n \<le> 53" and "x = of_int j / 2 ^ p"
  shows "fl x = x"
proof -
  from assms(3) have "x \<le> of_int j / 2 ^ p" and "of_int j / 2 ^ p \<le> x"
    by simp_all
  from fl_le_frac [OF assms(1,2) this(1)] fl_ge_frac [OF assms(1,2) this(2)] assms(3)
  show ?thesis
    by simp
qed

lemma fl_of_int:
  assumes "\<bar>z\<bar> < 2 ^ 53"
  shows "fl (of_int z) = of_int z"
proof -
  from assms have "\<bar>real_of_int z\<bar> < 2 ^ 53"
    by (metis of_int_abs of_int_less_numeral_power_cancel_iff)
  then show ?thesis
    by (rule fl_dyadic [where p = 0 and j = z]) simp_all
qed

lemma floor_fl:
  assumes "0 \<le> q" and "q < 2 ^ n" and "p + n \<le> 53"
    and "q \<le> of_int \<lfloor>q\<rfloor> + 1 - 1 / 2 ^ p"
  shows "\<lfloor>fl q\<rfloor> = \<lfloor>q\<rfloor>"
proof -
  let ?m = "\<lfloor>q\<rfloor>"
  from assms(1,2) have a: "\<bar>q\<bar> < 2 ^ n"
    by simp
  have "of_int (?m * 2 ^ p) / 2 ^ p = (of_int ?m :: real)"
    by simp
  then have "of_int (?m * 2 ^ p) / 2 ^ p \<le> q"
    by simp
  from fl_ge_frac [OF a assms(3) this] have lo: "of_int ?m \<le> fl q"
    by simp
  have "of_int ((?m + 1) * 2 ^ p - 1) / 2 ^ p = (of_int ?m + 1 - 1 / 2 ^ p :: real)"
    by (simp add: field_simps)
  with assms(4) have "q \<le> of_int ((?m + 1) * 2 ^ p - 1) / 2 ^ p"
    by simp
  from fl_le_frac [OF a assms(3) this] have "fl q \<le> of_int ?m + 1 - 1 / 2 ^ p"
    by (simp add: field_simps)
  moreover have "(0::real) < 1 / 2 ^ p"
    by simp
  ultimately have hi: "fl q < of_int ?m + 1"
    by linarith
  from lo hi show ?thesis
    by (simp add: floor_eq_iff)
qed

lemma rne_near:
  assumes "\<bar>y - of_int z\<bar> < 1 / 2"
  shows "rne y = z"
proof (cases "of_int z \<le> y")
  case True
  with assms have "\<lfloor>y\<rfloor> = z"
    by (auto simp: floor_eq_iff)
  with assms True show ?thesis
    by (simp add: rne_def Let_def)
next
  case False
  with assms have f: "\<lfloor>y\<rfloor> = z - 1"
    by (auto simp: floor_eq_iff)
  with assms False have "1 / 2 < y - of_int \<lfloor>y\<rfloor>"
    by auto
  with f show ?thesis
    by (simp add: rne_def Let_def)
qed

lemma fl_near:
  assumes "2 ^ n \<le> x" and "x < 2 ^ Suc n" and "n \<le> 52"
    and "\<bar>x * 2 ^ (52 - n) - of_int z\<bar> < 1 / 2"
  shows "fl x = of_int z / 2 ^ (52 - n)"
proof -
  have "(0::real) < 2 ^ n"
    by simp
  with assms(1) have pos: "0 < x"
    by linarith
  then have x0: "x \<noteq> 0" and ax: "\<bar>x\<bar> = x"
    by simp_all
  have "real_of_int (int n) + 1 = real (Suc n)"
    by simp
  then have "2 powr (real_of_int (int n) + 1) = 2 ^ Suc n"
    by (simp only: powr_realpow [of 2 "Suc n", OF zero_less_numeral])
  with assms(2) ax have "\<bar>x\<bar> < 2 powr (real_of_int (int n) + 1)"
    by (simp only:)
  with x0 have le: "fl_exp x \<le> int n"
    by (rule fl_exp_le) simp
  have "2 powr real_of_int (int n) = 2 ^ n"
    by (simp add: powr_realpow)
  with assms(1) ax have "2 powr real_of_int (int n) \<le> \<bar>x\<bar>"
    by (simp only:)
  with x0 have "int n \<le> fl_exp x"
    by (rule fl_exp_ge)
  with le have e: "fl_exp x = int n"
    by simp
  from assms(3) have "real_of_int (int n - 52) = - real (52 - n)"
    by simp
  then have "ulp x = 2 powr (- real (52 - n))"
    by (simp only: ulp_def e)
  also have "\<dots> = inverse (2 powr real (52 - n))"
    by (rule powr_minus)
  also have "2 powr real (52 - n) = (2::real) ^ (52 - n)"
    by (rule powr_realpow) simp
  finally have u: "ulp x = inverse (2 ^ (52 - n))" .
  then have "x / ulp x = x * 2 ^ (52 - n)"
    by (simp only: divide_inverse inverse_inverse_eq)
  with assms(4) have "rne (x / ulp x) = z"
    by (simp only: rne_near)
  with u show ?thesis
    by (simp only: fl_def divide_inverse)
qed

lemma round_double_Fin: "\<bar>fl x\<bar> < 2 ^ 1024 \<Longrightarrow> round_double x = Fin (fl x)"
  by (simp add: round_double_def)

lemma round_double_between:
  assumes "of_int a \<le> x" and "x \<le> of_int b" and "- (2 ^ 53) < a" and "b < 2 ^ 53"
  shows "round_double x = Fin (fl x) \<and> of_int a \<le> fl x \<and> fl x \<le> of_int b"
proof -
  from assms(3) have "- (2 ^ 53) < real_of_int a"
    by (metis of_int_less_iff of_int_minus of_int_numeral of_int_power)
  moreover from assms(4) have "real_of_int b < 2 ^ 53"
    by (metis of_int_less_iff of_int_numeral of_int_power)
  ultimately have ab: "\<bar>x\<bar> < 2 ^ 53"
    using assms(1,2) by (simp add: abs_less_iff)
  from assms(1) have "of_int a / 2 ^ 0 \<le> x"
    by simp
  from fl_ge_frac [OF ab _ this] have lo: "of_int a \<le> fl x"
    by simp
  from assms(2) have "x \<le> of_int b / 2 ^ 0"
    by simp
  from fl_le_frac [OF ab _ this] have hi: "fl x \<le> of_int b"
    by simp
  from lo hi \<open>- (2 ^ 53) < real_of_int a\<close> \<open>real_of_int b < 2 ^ 53\<close>
  have "\<bar>fl x\<bar> < 2 ^ 53"
    by (simp add: abs_less_iff)
  also have "(2::real) ^ 53 \<le> 2 ^ 1024"
    by (rule power_increasing) simp_all
  finally have "round_double x = Fin (fl x)"
    by (rule round_double_Fin)
  with lo hi show ?thesis
    by simp
qed

lemma int_to_float_exact:
  assumes "\<bar>z\<bar> < 2 ^ 53"
  shows "int_to_float z = Inr (Fin (of_int z))"
proof -
  from assms have "- (2 ^ 53) < z" and "z < 2 ^ 53"
    by simp_all
  from round_double_between [OF order_refl order_refl this]
  have "round_double (of_int z) = Fin (fl (of_int z))"
    by simp
  then show ?thesis
    by (simp add: int_to_float_def fl_of_int [OF assms])
qed

section \<open>Properties of the frame count\<close>

lemma float_max_tenth_Fin:
  "float_max (Fin (1 / 10)) (Fin s) = Fin (max (1 / 10) s)"
  by (simp add: float_max_def max_def)

lemma float_max_tenth_cases:
  "float_max (Fin (1 / 10)) speed = PosInf \<or>
   (\<exists>d. float_max (Fin (1 / 10)) speed = Fin d \<and> 1 / 10 \<le> d)"
proof (cases speed)
  case (Fin s)
  then have "float_max (Fin (1 / 10)) speed = Fin (max (1 / 10) s)"
    by (simp add: float_max_tenth_Fin)
  moreover have "1 / 10 \<le> max (1 / 10) s"
    by simp
  ultimately show ?thesis
    by blast
next
  case PosInf
  then show ?thesis
    by (simp add: float_max_def)
next
  case NegInf
  then have "float_max (Fin (1 / 10)) speed = Fin (1 / 10)"
    by (simp add: float_max_def)
  then show ?thesis
    by (intro disjI2 exI [of _ "1 / 10"]) simp
next
  case NaN
  then have "float_max (Fin (1 / 10)) speed = Fin (1 / 10)"
    by (simp add: float_max_def)
  then show ?thesis
    by (intro disjI2 exI [of _ "1 / 10"]) simp
qed

lemma int_to_float_base_frames: "int_to_float base_frames = Inr (Fin 240)"
  using int_to_float_exact [of 240] by (simp add: base_frames_def)

lemma quotient_rounded:
  assumes "1 / 10 \<le> d"
  shows "round_double (240 / d) = Fin (fl (240 / d)) \<and>
    0 \<le> fl (240 / d) \<and> fl (240 / d) \<le> 2400"
proof -
  from assms have d: "0 < d"
    by simp
  then have "240 / d \<le> 240 / (1 / 10)"
    using assms by (intro divide_left_mono) simp_all
  then have hi: "240 / d \<le> real_of_int 2400"
    by simp
  from d have lo: "real_of_int 0 \<le> 240 / d"
    by simp
  from round_double_between [OF lo hi] show ?thesis
    by simp
qed

lemma int_truediv_base_frames:
  assumes "1 / 10 \<le> d"
  shows "int_truediv base_frames (Fin d) = Inr (Fin (fl (240 / d)))"
proof -
  from assms have "d \<noteq> 0"
    by auto
  with quotient_rounded [OF assms] show ?thesis
    by (simp add: int_truediv_def int_to_float_base_frames)
qed

lemma frames_Fin:
  "frames (Fin s) = Inr (int_max 60 (trunc (fl (240 / max (1 / 10) s))))"
proof -
  have "1 / 10 \<le> max (1 / 10) s"
    by simp
  from int_truediv_base_frames [OF this] show ?thesis
    by (simp add: frames_def float_max_tenth_Fin)
qed

lemma int_max_eq: "int_max a b = max a b"
  by (simp add: int_max_def max_def)


lemma trunc_nonneg: "0 \<le> r \<Longrightarrow> trunc r = \<lfloor>r\<rfloor>"
  by (simp add: trunc_def)

lemma frames_total_aux: "\<exists>n. frames speed = Inr n \<and> 60 \<le> n"
proof -
  from float_max_tenth_cases [of speed] show ?thesis
  proof
    assume "float_max (Fin (1 / 10)) speed = PosInf"
    then show ?thesis
      by (simp add: frames_def int_truediv_def int_to_float_base_frames int_max_def
          trunc_def)
  next
    assume "\<exists>d. float_max (Fin (1 / 10)) speed = Fin d \<and> 1 / 10 \<le> d"
    then obtain d where d: "float_max (Fin (1 / 10)) speed = Fin d" "1 / 10 \<le> d"
      by blast
    from int_truediv_base_frames [OF d(2)] d(1) show ?thesis
      by (simp add: frames_def int_max_def)
  qed
qed

lemma fl_240: "fl 240 = 240"
  using fl_of_int [of 240] by simp

lemma fl_2400: "fl 2400 = 2400"
  using fl_of_int [of 2400] by simp

text \<open>
  The quotient of 240 by the double that the literal \<open>0.1\<close> denotes is not 2400, but it
  rounds to 2400, which is also the quotient by one tenth.
\<close>

lemma quotient_by_literal:
  "fl (240 / (3602879701896397 / 2 ^ 55)) = 2400 \<and> fl (240 / (1 / 10)) = 2400"
proof
  have "fl (240 / (3602879701896397 / 2 ^ 55)) = of_int 5277655813324800 / 2 ^ (52 - 11)"
    by (rule fl_near) simp_all
  then show "fl (240 / (3602879701896397 / 2 ^ 55)) = 2400"
    by simp
  show "fl (240 / (1 / 10)) = 2400"
    by (simp add: fl_2400)
qed

text \<open>
  Two speeds at which the rounding of the quotient decides the frame count: at the double
  next to 3.2 the exact quotient is just below 75 and rounds to 75; at the double
  0.2591792656587473 the quotient rounds to the double just below 926.
\<close>

lemma frames_at_doubles:
  "frames (Fin (3602879701896397 / 2 ^ 50)) = Inr 75 \<and>
   frames (Fin (4668958576971573 / 2 ^ 54)) = Inr 925"
proof
  have "fl (240 / (3602879701896397 / 2 ^ 50)) = of_int 5277655813324800 / 2 ^ (52 - 6)"
    by (rule fl_near) simp_all
  then have "fl (240 / (3602879701896397 / 2 ^ 50)) = 75"
    by simp
  moreover have "max (1 / 10) (3602879701896397 / 2 ^ 50 :: real) = 3602879701896397 / 2 ^ 50"
    by simp
  ultimately show "frames (Fin (3602879701896397 / 2 ^ 50)) = Inr 75"
    by (simp add: frames_Fin trunc_def int_max_def)
  have "fl (240 / (4668958576971573 / 2 ^ 54)) = of_int 8145182138564607 / 2 ^ (52 - 9)"
    by (rule fl_near) simp_all
  moreover have "trunc (of_int 8145182138564607 / 2 ^ (52 - 9)) = 925"
    by (simp add: trunc_def)
  ultimately have "trunc (fl (240 / (4668958576971573 / 2 ^ 54))) = 925"
    by (simp only:)
  moreover have "max (1 / 10) (4668958576971573 / 2 ^ 54 :: real) = 4668958576971573 / 2 ^ 54"
    by simp
  ultimately show "frames (Fin (4668958576971573 / 2 ^ 54)) = Inr 925"
    by (simp add: frames_Fin int_max_def)
qed

text \<open>
  Claim C9. For every speed (finite, zero or negative, and also infinite or NaN) the
  computation of the frame count raises nothing: the divisor \<open>max(0.1, speed)\<close> is never
  zero, the division and the conversion to \<open>int\<close> succeed, and the frame count is at
  least 60.
\<close>

theorem frames_total:
  "float_max (Fin (1 / 10)) speed \<noteq> Fin 0 \<and>
   (\<exists>q. int_truediv base_frames (float_max (Fin (1 / 10)) speed) = Inr (Fin q)) \<and>
   (\<exists>n. frames speed = Inr n \<and> 60 \<le> n)"
proof (intro conjI)
  show "float_max (Fin (1 / 10)) speed \<noteq> Fin 0"
    using float_max_tenth_cases [of speed] by auto
  show "\<exists>q. int_truediv base_frames (float_max (Fin (1 / 10)) speed) = Inr (Fin q)"
  proof -
    from float_max_tenth_cases [of speed] show ?thesis
    proof
      assume "float_max (Fin (1 / 10)) speed = PosInf"
      then show ?thesis
        by (simp add: int_truediv_def int_to_float_base_frames)
    next
      assume "\<exists>d. float_max (Fin (1 / 10)) speed = Fin d \<and> 1 / 10 \<le> d"
      then obtain d where d: "float_max (Fin (1 / 10)) speed = Fin d" "1 / 10 \<le> d"
        by blast
      from int_truediv_base_frames [OF d(2)] d(1) show ?thesis
        by simp
    qed
  qed
  show "\<exists>n. frames speed = Inr n \<and> 60 \<le> n"
    by (rule frames_total_aux)
qed



text \<open>
  Claim C2, as stated, rounds the quotient to the nearest integer. The code converts with
  \<open>int\<close>, which drops the fractional part: at speed 3.5 the quotient is 68.57..., the
  code gives 68 frames and rounding would give 69.
\<close>

theorem frames_round_counterexample:
  "frames (Fin (7 / 2)) = Inr 68 \<and>
   max 60 (round (240 / max (1 / 10) (7 / 2 :: real))) = 69 \<and>
   frames (Fin (7 / 2)) \<noteq> Inr (max 60 (round (240 / max (1 / 10) (7 / 2 :: real))))"
proof -
  have m: "max (1 / 10) (7 / 2 :: real) = 7 / 2"
    by simp
  have q: "\<lfloor>480 / 7 :: real\<rfloor> = 68"
    by simp
  have "\<lfloor>fl (480 / 7)\<rfloor> = \<lfloor>480 / 7 :: real\<rfloor>"
    by (rule floor_fl [where n = 7 and p = 46]) (simp_all add: q)
  with q have fq: "\<lfloor>fl (480 / 7)\<rfloor> = 68"
    by simp
  then have "0 \<le> fl (480 / 7)"
    by (simp add: floor_eq_iff)
  with fq have t: "trunc (fl (480 / 7)) = 68"
    by (simp add: trunc_nonneg)
  have f: "frames (Fin (7 / 2)) = Inr 68"
    by (simp add: frames_Fin m t int_max_def)
  have r: "max 60 (round (240 / max (1 / 10) (7 / 2 :: real))) = 69"
    by (simp add: round_def)
  show ?thesis
    unfolding f r by simp
qed

text \<open>
  Claim C2, amended. For every finite speed the frame count is \<open>max(60, floor(q))\<close>,
  where \<open>q\<close> is the quotient \<open>240 / max(0.1, speed)\<close> as a double, that is the exact
  quotient rounded to the nearest double: \<open>int\<close> drops the fractional part of \<open>q\<close>, and
  \<open>q\<close> is not negative, so that is its floor. For speed 1.0 the frame count is 240.
\<close>

theorem frames_floor:
  "frames (Fin s) = Inr (max 60 \<lfloor>fl (240 / max (1 / 10) s)\<rfloor>) \<and> frames (Fin 1) = Inr 240"
proof
  have "1 / 10 \<le> max (1 / 10) s"
    by simp
  from quotient_rounded [OF this] have "0 \<le> fl (240 / max (1 / 10) s)"
    by simp
  then have "trunc (fl (240 / max (1 / 10) s)) = \<lfloor>fl (240 / max (1 / 10) s)\<rfloor>"
    by (rule trunc_nonneg)
  then show "frames (Fin s) = Inr (max 60 \<lfloor>fl (240 / max (1 / 10) s)\<rfloor>)"
    by (simp only: frames_Fin int_max_eq)
  show "frames (Fin 1) = Inr 240"
    by (simp add: frames_Fin fl_240 trunc_def int_max_def)
qed

section \<open>Properties of the sampled curve\<close>

lemma linspace_Inr:
  "0 \<le> num \<Longrightarrow> \<exists>th. linspace start stop num = Inr th \<and> length th = nat num"
  by (simp add: linspace_def Let_def)

lemma prepare_data_Inr:
  assumes "0 \<le> points"
  shows "\<exists>th. linspace 0 (2 * pi) points = Inr th \<and> length th = nat points \<and>
    prepare_data k a points =
      Inr (map (\<lambda>t. a * cos (real_of_int k * t) * cos t) th,
           map (\<lambda>t. a * cos (real_of_int k * t) * sin t) th)"
proof -
  from linspace_Inr [OF assms] obtain th
    where th: "linspace 0 (2 * pi) points = Inr th" "length th = nat points"
    by blast
  have "map2 (\<lambda>ri t. ri * f t) (map g th) th = map (\<lambda>t. g t * f t) th"
    for f g :: "real \<Rightarrow> real"
    by (induction th) simp_all
  with th show ?thesis
    by (simp add: prepare_data_def Let_def)
qed





text \<open>
  Both readings of the four lines give the same number of samples.
\<close>

lemma sample_count_agrees:
  assumes "prepare_data_double np_cos np_sin k a points = Inr (x, y)"
  shows "\<exists>x' y'. prepare_data k a' points = Inr (x', y') \<and>
    length x' = length x \<and> length y' = length y"
proof -
  from assms obtain th where th: "theta_double points = Inr th"
    by (auto simp: prepare_data_double_def split: sum.splits)
  then have p0: "0 \<le> points" and lth: "length th = nat points"
    by (auto simp: theta_double_def Let_def split: if_splits)
  from assms th have "length x = length th" and "length y = length th"
    by (auto simp: prepare_data_double_def Let_def split: sum.splits)
  with lth prepare_data_Inr [OF p0, of k a'] show ?thesis
    by auto
qed




section \<open>Properties of the decimal text\<close>










lemma str_int_96: "str_int 96 = ''96''"
  by (simp add: str_int_def)

section \<open>Properties of the reveal\<close>

lemma animate_rose_Inr:
  assumes "0 \<le> points"
  shows "\<exists>A fr. animate_rose k a points speed = Inr A \<and>
    frames speed = Inr fr \<and> 60 \<le> fr \<and> anim_frames A = fr \<and>
    anim_idx_per_frame A = max 1 (points div fr) \<and>
    prepare_data k a points = Inr (anim_x A, anim_y A) \<and>
    length (anim_x A) = nat points \<and> length (anim_y A) = nat points \<and>
    line_x (anim_fig A) = [] \<and> line_y (anim_fig A) = [] \<and> pct_text (anim_fig A) = ''0%''"
proof -
  from prepare_data_Inr [OF assms, of k a] obtain x y
    where pd: "prepare_data k a points = Inr (x, y)"
      and len: "length x = nat points" "length y = nat points"
    by auto
  from frames_total_aux [of speed] obtain fr
    where fr: "frames speed = Inr fr" "60 \<le> fr"
    by blast
  from fr(2) have "fr \<noteq> 0"
    by simp
  with assms len have idx: "idx_per_frame (int (length x)) fr = Inr (max 1 (points div fr))"
    by (simp add: idx_per_frame_def int_floordiv_def int_max_eq)
  from pd fr idx len show ?thesis
    by (simp add: animate_rose_def)
qed



lemma percent_rounded:
  assumes "1 \<le> points" and "0 \<le> i" and "i \<le> points"
  shows "int_int_truediv (100 * i) points
      = Inr (Fin (fl (real_of_int (100 * i) / real_of_int points)))"
    and "0 \<le> fl (real_of_int (100 * i) / real_of_int points)"
    and "fl (real_of_int (100 * i) / real_of_int points) \<le> 100"
proof -
  let ?q = "real_of_int (100 * i) / real_of_int points"
  from assms have lo: "real_of_int 0 \<le> ?q"
    by simp
  from assms have "real_of_int (100 * i) \<le> 100 * real_of_int points"
    by simp
  with assms(1) have hi: "?q \<le> real_of_int 100"
    by (simp add: pos_divide_le_eq)
  from round_double_between [OF lo hi]
  have r: "round_double ?q = Fin (fl ?q)" and b: "0 \<le> fl ?q" "fl ?q \<le> 100"
    by simp_all
  from assms(1) have "points \<noteq> 0"
    by simp
  with r show "int_int_truediv (100 * i) points = Inr (Fin (fl ?q))"
    by (simp add: int_int_truediv_def)
  from b show "0 \<le> fl ?q" and "fl ?q \<le> 100"
    by simp_all
qed

lemma update_Inr:
  assumes "1 \<le> points" and "length (anim_x A) = nat points"
    and "0 \<le> revealed_count A f" and "revealed_count A f \<le> points"
  shows "update A fig f =
    Inr (fig\<lparr>line_x := slice_to (anim_x A) (revealed_count A f),
             line_y := slice_to (anim_y A) (revealed_count A f),
             pct_text :=
               str_int \<lfloor>fl (real_of_int (100 * revealed_count A f) / real_of_int points)\<rfloor>
                 @ ''%'',
             window_title :=
               ''Rose Drawing '' @ em_dash @ '' '' @
               str_int \<lfloor>fl (real_of_int (100 * revealed_count A f) / real_of_int points)\<rfloor>
                 @ ''%''\<rparr>)"
proof -
  from assms(1,2) have len: "int (length (anim_x A)) = points"
    by simp
  note p = percent_rounded [OF assms(1,3,4)]
  from p(2) have "trunc (fl (real_of_int (100 * revealed_count A f) / real_of_int points))
      = \<lfloor>fl (real_of_int (100 * revealed_count A f) / real_of_int points)\<rfloor>"
    by (rule trunc_nonneg)
  with p(1) show ?thesis
    by (simp add: update_def Let_def len del: nat_digits.simps)
qed











text \<open>
  Claim C1 fails on the code. In the default run (\<open>k = 7\<close>, \<open>a = 1.0\<close>, 3000 points,
  speed 1.0) there are 240 frames of 12 points each, so the last frame, of index 239,
  reveals 2880 of the 3000 points and shows the label \<open>96%\<close>.
\<close>

theorem default_run_stops_short:
  "\<exists>A fig'. animate_rose 7 1 3000 (Fin 1) = Inr A \<and>
     length (anim_x A) = 3000 \<and> anim_frames A = 240 \<and> anim_idx_per_frame A = 12 \<and>
     revealed_count A (anim_frames A - 1) = 2880 \<and>
     update A (anim_fig A) (anim_frames A - 1) = Inr fig' \<and>
     length (line_x fig') = 2880 \<and> pct_text fig' = ''96%''"
proof -
  from animate_rose_Inr [of 3000 7 1 "Fin 1"] obtain A fr
    where A: "animate_rose 7 1 3000 (Fin 1) = Inr A"
      "frames (Fin 1) = Inr fr" "anim_frames A = fr"
      "anim_idx_per_frame A = max 1 (3000 div fr)"
      "length (anim_x A) = nat 3000"
    by auto
  have "frames (Fin 1) = Inr 240"
    by (simp add: frames_Fin fl_240 trunc_def int_max_def)
  with A(2) have fr: "fr = 240"
    by simp
  with A(3,4) have s: "anim_frames A = 240" "anim_idx_per_frame A = 12"
    by simp_all
  from A(5) have len: "length (anim_x A) = 3000"
    by simp
  from s len have rc: "revealed_count A (anim_frames A - 1) = 2880"
    by (simp add: revealed_count_def int_min_def)
  have h: "(1::int) \<le> 3000"
    by simp
  from rc have b: "0 \<le> revealed_count A (anim_frames A - 1)"
    "revealed_count A (anim_frames A - 1) \<le> 3000"
    by simp_all
  have "fl 96 = 96"
    using fl_of_int [of 96] by simp
  then have pct: "\<lfloor>fl (real_of_int (100 * 2880) / real_of_int 3000)\<rfloor> = 96"
    by simp
  obtain fig' where fig': "update A (anim_fig A) (anim_frames A - 1) = Inr fig'"
    and lx: "line_x fig' = slice_to (anim_x A) 2880"
    and pt: "pct_text fig' = str_int 96 @ ''%''"
    using update_Inr [OF h A(5) b, of "anim_fig A"]
    by (simp only: rc pct) simp
  from lx len have ll: "length (line_x fig') = 2880"
    by (simp add: slice_to_def)
  from pt have pp: "pct_text fig' = ''96%''"
    by (simp add: str_int_96)
  from A(1) len s rc fig' ll pp show ?thesis
    by blast
qed

text \<open>
  Claim C8. When a non-empty path is given and the encoder raises an error (an instance of
  \<open>Exception\<close>) with text \<open>msg\<close>, the program prints \<open>Could not save GIF:\<close> followed
  by \<open>msg\<close>, still shows the figure, and no exception leaves the function. Without a path
  the encoder is not called and the figure is shown.
\<close>

theorem export_failure_swallowed:
  assumes "path \<noteq> []" and "anim_save path = Some (Exc msg)"
  shows "save_and_show anim_save (Some path) =
      ([Save_call path, Print (''Could not save GIF: '' @ msg), Show], None) \<and>
    save_and_show anim_save None = ([Show], None)"
  using assms by (simp add: save_and_show_def)

theorem export_failure_swallowed_witness:
  "''/out.gif'' \<noteq> [] \<and>
   (\<lambda>p. Some (Exc ''Permission denied'')) ''/out.gif'' = Some (Exc ''Permission denied'') \<and>
   save_and_show (\<lambda>p. Some (Exc ''Permission denied'')) (Some ''/out.gif'') =
     ([Save_call ''/out.gif'', Print ''Could not save GIF: Permission denied'', Show], None) \<and>
   save_and_show (\<lambda>p. Some (Exc ''Permission denied'')) None = ([Show], None)"
  using export_failure_swallowed
    [of "''/out.gif''" "\<lambda>p. Some (Exc ''Permission denied'')" "''Permission denied''"]
  by simp

end
